theory Spec2Isabelle
  imports Complex_Main "HOL-Library.AList"
begin

section \<open>Values, records and errors\<close>

text \<open>
  The repository stores training examples as \<open>dspy.Example\<close> objects, writes them to a
  line-delimited JSON file (\<open>utils/data_utils.py\<close>) and scores model outputs with an
  LLM judge (\<open>apps/search_assistant.py\<close>, \<open>apps/audio_assistant.py\<close>).

  A field value is a Python string, integer, boolean or \<open>None\<close>. A \<open>string\<close> holds
  the UTF-8 code units of the text, so file contents and field values are both
  \<open>char list\<close>s and positions count code units. Python floats are not modelled as
  field values; the judge's float sub-scores are modelled as real numbers, so rounding
  is left out.
\<close>

type_synonym path = string

datatype pyvalue = PNone | PBool bool | PInt int | PStr string

text \<open>A Python \<open>dict\<close> with string keys: insertion-ordered, keys unique.\<close>

type_synonym pydict = "(string \<times> pyvalue) list"

text \<open>
  The exceptions the code can raise. \<open>JSONDecodeError msg doc pos\<close> carries what
  Python's exception carries: the message, the document being decoded and the position in
  that document. \<open>PermissionError\<close> stands for every \<open>OSError\<close> of opening a file
  for writing, \<open>JudgeError\<close> for every failure of the remote judge. \<open>NotModelled\<close>
  is no Python exception: it marks JSON text that Python decodes to a value outside
  \<open>pyvalue\<close> (a float, an array, a nested object, a surrogate left alone).
\<close>

datatype error =
    FileNotFoundError path
  | PermissionError path
  | JSONDecodeError string string nat
  | NotModelled string
  | TypeError string
  | AttributeError string
  | JudgeError string

text \<open>
  \<open>dspy.Example\<close>: the field store \<open>_store\<close> and the declared input keys
  \<open>_input_keys\<close> (\<open>None\<close> until \<open>with_inputs\<close> is called).
\<close>

record example =
  store :: pydict
  input_keys :: "string set option"

text \<open>\<open>Example.toDict()\<close> returns a copy of the store.\<close>

definition toDict :: "example \<Rightarrow> pydict" where
  "toDict ex = store ex"

text \<open>\<open>Example.with_inputs(*keys)\<close> copies the example and sets \<open>_input_keys = set(keys)\<close>.\<close>

definition with_inputs :: "string list \<Rightarrow> example \<Rightarrow> example" where
  "with_inputs keys ex = \<lparr>store = store ex, input_keys = Some (set keys)\<rparr>"

text \<open>
  Attribute access \<open>ex.name\<close> on an Example or Prediction looks the name up in the store
  and raises \<open>AttributeError\<close> when it is absent.
\<close>

definition getattr :: "example \<Rightarrow> string \<Rightarrow> error + pyvalue" where
  "getattr ex name =
     (case map_of (store ex) name of
        None \<Rightarrow> Inl (AttributeError name)
      | Some v \<Rightarrow> Inr v)"

section \<open>JSON text\<close>

text \<open>
  \<open>save_trainset\<close> and \<open>load_trainset\<close> call \<open>json.dumps\<close> and
  \<open>json.loads\<close> of the Python standard library. Both are modelled here on one-level
  objects with scalar values, which is the trainset format, following the encoder and the
  C scanner of CPython: the same text, the same order of checks, the same place for each
  error. Error messages are shortened where Python adds the offending character.
\<close>

abbreviation (input) dquote :: char where "dquote \<equiv> CHR 0x22"
abbreviation (input) backslash :: char where "backslash \<equiv> CHR 0x5C"
abbreviation (input) newline :: char where "newline \<equiv> CHR 0x0A"
abbreviation (input) carriage_return :: char where "carriage_return \<equiv> CHR 0x0D"

subsection \<open>Encoding: \<open>json.dumps(d, ensure_ascii=False)\<close>\<close>

text \<open>
  A string is written between double quotes. With \<open>ensure_ascii=False\<close> only the
  double quote, the backslash and the control characters below 0x20 are escaped; every
  other code unit is written as it is.
\<close>

definition hex_digit :: "nat \<Rightarrow> char" where
  "hex_digit n = ''0123456789abcdef'' ! (n mod 16)"

definition escape_char :: "char \<Rightarrow> string" where
  "escape_char c =
     (if c = dquote then [backslash, dquote]
      else if c = backslash then [backslash, backslash]
      else if c = CHR 0x08 then [backslash, CHR ''b'']
      else if c = CHR 0x0C then [backslash, CHR ''f'']
      else if c = newline then [backslash, CHR ''n'']
      else if c = carriage_return then [backslash, CHR ''r'']
      else if c = CHR 0x09 then [backslash, CHR ''t'']
      else if (of_char c :: nat) < 32
        then [backslash, CHR ''u'', CHR ''0'', CHR ''0'',
              hex_digit (of_char c div 16), hex_digit (of_char c mod 16)]
      else [c])"

definition encode_basestring :: "string \<Rightarrow> string" where
  "encode_basestring s = dquote # concat (map escape_char s) @ [dquote]"

text \<open>An integer is written in decimal, as \<open>int.__repr__\<close> does.\<close>

definition digit_char :: "nat \<Rightarrow> char" where
  "digit_char n = char_of (48 + n mod 10)"

fun decimal :: "nat \<Rightarrow> string" where
  "decimal n = (if n < 10 then [digit_char n] else decimal (n div 10) @ [digit_char (n mod 10)])"

declare decimal.simps [simp del]

definition str_int :: "int \<Rightarrow> string" where
  "str_int i = (if i < 0 then CHR ''-'' # decimal (nat (- i)) else decimal (nat i))"

fun dumps_value :: "pyvalue \<Rightarrow> string" where
  "dumps_value PNone = ''null''"
| "dumps_value (PBool b) = (if b then ''true'' else ''false'')"
| "dumps_value (PInt i) = str_int i"
| "dumps_value (PStr s) = encode_basestring s"

text \<open>The members of an object, with the default separators \<open>", "\<close> and \<open>": "\<close>.\<close>

fun dumps_items :: "pydict \<Rightarrow> string" where
  "dumps_items [] = []"
| "dumps_items [(k, v)] = encode_basestring k @ '': '' @ dumps_value v"
| "dumps_items ((k, v) # item # items) =
     encode_basestring k @ '': '' @ dumps_value v @ '', '' @ dumps_items (item # items)"

definition json_dumps :: "pydict \<Rightarrow> string" where
  "json_dumps d = ''{'' @ dumps_items d @ ''}''"

subsection \<open>Decoding: \<open>json.loads(doc)\<close>\<close>

text \<open>
  What \<open>json.loads\<close> returns: a scalar or a one-level object. The decoder works on the
  text that is left; an error at the text \<open>rest\<close> is at position
  \<open>length doc - length rest\<close> of the document.
\<close>

datatype json_value = JScalar pyvalue | JObject pydict

definition decode_error :: "string \<Rightarrow> string \<Rightarrow> string \<Rightarrow> error" where
  "decode_error doc msg rest = JSONDecodeError msg doc (length doc - length rest)"

definition is_ws :: "char \<Rightarrow> bool" where
  "is_ws c = (c = CHR '' '' \<or> c = CHR 0x09 \<or> c = newline \<or> c = carriage_return)"

definition skip_ws :: "string \<Rightarrow> string" where
  "skip_ws s = dropWhile is_ws s"

definition is_digit :: "char \<Rightarrow> bool" where
  "is_digit c = (48 \<le> (of_char c :: nat) \<and> (of_char c :: nat) \<le> 57)"

definition digit_val :: "char \<Rightarrow> nat" where
  "digit_val c = of_char c - 48"

definition nat_of_digits :: "string \<Rightarrow> nat" where
  "nat_of_digits ds = foldl (\<lambda>n c. 10 * n + digit_val c) 0 ds"

text \<open>
  The number pattern \<open>(-?(?:0|[1-9]\d*))(\.\d+)?([eE][-+]?\d+)?\<close>: an integer when
  neither a fraction nor an exponent follows, a float otherwise.
\<close>

datatype number_match = NoMatch | IntMatch int string | FloatMatch

definition match_int_part :: "string \<Rightarrow> (string \<times> string) option" where
  "match_int_part s =
     (case s of
        [] \<Rightarrow> None
      | c # cs \<Rightarrow>
          if c = CHR ''0'' then Some ([c], cs)
          else if is_digit c then Some (takeWhile is_digit s, dropWhile is_digit s)
          else None)"

definition has_frac :: "string \<Rightarrow> bool" where
  "has_frac s = (case s of c # d # _ \<Rightarrow> c = CHR ''.'' \<and> is_digit d | _ \<Rightarrow> False)"

definition has_exp :: "string \<Rightarrow> bool" where
  "has_exp s =
     (case s of
        c # d # ds \<Rightarrow>
          (c = CHR ''e'' \<or> c = CHR ''E'') \<and>
          (is_digit d \<or> ((d = CHR ''+'' \<or> d = CHR ''-'') \<and> (case ds of x # _ \<Rightarrow> is_digit x | [] \<Rightarrow> False)))
      | _ \<Rightarrow> False)"

definition match_number :: "string \<Rightarrow> number_match" where
  "match_number s =
     (let neg = (case s of c # _ \<Rightarrow> c = CHR ''-'' | [] \<Rightarrow> False);
          body = (if neg then tl s else s)
      in case match_int_part body of
           None \<Rightarrow> NoMatch
         | Some (ds, rest) \<Rightarrow>
             if has_frac rest \<or> has_exp rest then FloatMatch
             else IntMatch (if neg then - int (nat_of_digits ds) else int (nat_of_digits ds)) rest)"

text \<open>The escapes inside a string.\<close>

definition hex_val :: "char \<Rightarrow> nat option" where
  "hex_val c =
     (let n = (of_char c :: nat)
      in if 48 \<le> n \<and> n \<le> 57 then Some (n - 48)
         else if 97 \<le> n \<and> n \<le> 102 then Some (n - 87)
         else if 65 \<le> n \<and> n \<le> 70 then Some (n - 55)
         else None)"

text \<open>
  The four hexadecimal digits after \<open>\u\<close>. The C scanner of CPython asks for one more
  character after them, which a terminated string always has.
\<close>

definition decode_uXXXX :: "string \<Rightarrow> nat option" where
  "decode_uXXXX s =
     (case s of
        a # b # c # d # _ # _ \<Rightarrow>
          (case (hex_val a, hex_val b, hex_val c, hex_val d) of
             (Some w, Some x, Some y, Some z) \<Rightarrow> Some (((w * 16 + x) * 16 + y) * 16 + z)
           | _ \<Rightarrow> None)
      | _ \<Rightarrow> None)"

text \<open>The UTF-8 code units of a code point.\<close>

definition utf8_encode :: "nat \<Rightarrow> string" where
  "utf8_encode n =
     (if n < 0x80 then [char_of n]
      else if n < 0x800 then [char_of (0xC0 + n div 64), char_of (0x80 + n mod 64)]
      else if n < 0x10000 then
        [char_of (0xE0 + n div 4096), char_of (0x80 + n div 64 mod 64), char_of (0x80 + n mod 64)]
      else
        [char_of (0xF0 + n div 262144), char_of (0x80 + n div 4096 mod 64),
         char_of (0x80 + n div 64 mod 64), char_of (0x80 + n mod 64)])"

definition backslash_map :: "char \<Rightarrow> char option" where
  "backslash_map e =
     (if e = dquote then Some dquote
      else if e = backslash then Some backslash
      else if e = CHR ''/'' then Some CHR ''/''
      else if e = CHR ''b'' then Some (CHR 0x08)
      else if e = CHR ''f'' then Some (CHR 0x0C)
      else if e = CHR ''n'' then Some newline
      else if e = CHR ''r'' then Some carriage_return
      else if e = CHR ''t'' then Some (CHR 0x09)
      else None)"

text \<open>
  The second half of a surrogate pair: after a high surrogate, the text \<open>\uXXXX\<close> of a
  low surrogate joins it into one code point. A surrogate that stays alone is a character
  of a Python string that has no UTF-8 code units.
\<close>

definition scan_low_surrogate :: "string \<Rightarrow> string \<Rightarrow> nat \<Rightarrow> string \<Rightarrow> error + (string \<times> string)" where
  "scan_low_surrogate doc s hi rest =
     (case rest of
        b # u # _ # _ # _ # _ # _ # _ \<Rightarrow>
          if b = backslash \<and> u = CHR ''u'' then
            (case decode_uXXXX (drop 2 rest) of
               None \<Rightarrow> Inl (decode_error doc (''Invalid '' @ backslash # ''uXXXX escape'') (tl rest))
             | Some lo \<Rightarrow>
                 if 0xDC00 \<le> lo \<and> lo \<le> 0xDFFF
                 then Inr (utf8_encode (0x10000 + ((hi - 0xD800) * 1024 + (lo - 0xDC00))), drop 6 rest)
                 else Inl (NotModelled doc))
          else Inl (NotModelled doc)
      | _ \<Rightarrow> Inl (NotModelled doc))"

text \<open>
  The escape after a backslash; \<open>s\<close> is the text after the backslash. It gives the code
  units of the character and the text after the escape.
\<close>

definition scan_escape :: "string \<Rightarrow> string \<Rightarrow> string \<Rightarrow> error + (string \<times> string)" where
  "scan_escape doc start s =
     (case s of
        [] \<Rightarrow> Inl (decode_error doc ''Unterminated string starting at'' start)
      | e # es \<Rightarrow>
          if e \<noteq> CHR ''u'' then
            (case backslash_map e of
               None \<Rightarrow> Inl (decode_error doc (''Invalid '' @ backslash # ''escape'') (backslash # s))
             | Some ch \<Rightarrow> Inr ([ch], es))
          else
            (case decode_uXXXX es of
               None \<Rightarrow> Inl (decode_error doc (''Invalid '' @ backslash # ''uXXXX escape'') s)
             | Some n \<Rightarrow>
                 if 0xD800 \<le> n \<and> n \<le> 0xDBFF then scan_low_surrogate doc s n (drop 4 es)
                 else if 0xDC00 \<le> n \<and> n \<le> 0xDFFF then Inl (NotModelled doc)
                 else Inr (utf8_encode n, drop 4 es)))"

lemma scan_low_surrogate_shorter:
  "scan_low_surrogate doc s hi rest = Inr (chars, rest') \<Longrightarrow> length rest' < length rest"
  by (auto simp: scan_low_surrogate_def split: list.splits if_splits option.splits)

lemma scan_escape_shorter:
  assumes "scan_escape doc start s = Inr (chars, rest)"
  shows "length rest < length s"
proof (cases s)
  case Nil
  with assms show ?thesis by (simp add: scan_escape_def)
next
  case (Cons e es)
  show ?thesis
  proof (cases "e = CHR ''u''")
    case False
    with assms Cons show ?thesis
      by (auto simp: scan_escape_def split: option.splits)
  next
    case True
    with assms Cons obtain n where n: "decode_uXXXX es = Some n"
      by (auto simp: scan_escape_def split: option.splits)
    have d: "length (drop 4 es) \<le> length es" by simp
    show ?thesis
    proof (cases "0xD800 \<le> n \<and> n \<le> 0xDBFF")
      case hi: True
      with assms Cons True n have "scan_low_surrogate doc s n (drop 4 es) = Inr (chars, rest)"
        by (simp add: scan_escape_def)
      from scan_low_surrogate_shorter [OF this] d Cons show ?thesis by simp
    next
      case False
      with assms Cons True n have "rest = drop 4 es"
        by (simp add: scan_escape_def split: if_splits)
      with d Cons show ?thesis by simp
    qed
  qed
qed

text \<open>
  \<open>scanstring\<close>, entered after the opening quote; \<open>start\<close> is the text from the
  opening quote on, where an unterminated string is reported.
\<close>

function scanstring :: "string \<Rightarrow> string \<Rightarrow> string \<Rightarrow> error + (string \<times> string)" where
  "scanstring doc start [] = Inl (decode_error doc ''Unterminated string starting at'' start)"
| "scanstring doc start (c # cs) =
     (if c = dquote then Inr ([], cs)
      else if c = backslash then
        (case scan_escape doc start cs of
           Inl e \<Rightarrow> Inl e
         | Inr (chars, rest) \<Rightarrow>
             (case scanstring doc start rest of
                Inl e \<Rightarrow> Inl e
              | Inr (str, rest') \<Rightarrow> Inr (chars @ str, rest')))
      else if (of_char c :: nat) < 32 then
        Inl (decode_error doc ''Invalid control character at'' (c # cs))
      else
        (case scanstring doc start cs of
           Inl e \<Rightarrow> Inl e
         | Inr (str, rest) \<Rightarrow> Inr (c # str, rest)))"
  by pat_completeness auto
termination
  by (relation "measure (\<lambda>(doc, start, s). length s)") (auto dest: scan_escape_shorter)

lemma scanstring_shorter:
  "scanstring doc start s = Inr (str, rest) \<Longrightarrow> length rest < length s"
proof (induction doc start s arbitrary: str rest rule: scanstring.induct)
  case (1 doc start)
  then show ?case by simp
next
  case (2 doc start c cs)
  then show ?case
    by (fastforce split: if_splits sum.splits prod.splits dest: scan_escape_shorter)
qed

lemma dropWhile_length_le: "length (dropWhile P xs) \<le> length xs"
  by (induction xs) auto

lemma skip_ws_length_le: "length (skip_ws s) \<le> length s"
  by (simp add: skip_ws_def dropWhile_length_le)

text \<open>
  A value in member position or at top level, other than an object: the branches of
  Python's \<open>scan_once\<close> in their order.
\<close>

definition scan_scalar :: "string \<Rightarrow> string \<Rightarrow> error + (pyvalue \<times> string)" where
  "scan_scalar doc s =
     (case s of
        [] \<Rightarrow> Inl (decode_error doc ''Expecting value'' s)
      | c # cs \<Rightarrow>
          if c = dquote then
            (case scanstring doc s cs of
               Inl e \<Rightarrow> Inl e
             | Inr (str, rest) \<Rightarrow> Inr (PStr str, rest))
          else if c = CHR ''{'' \<or> c = CHR ''['' then Inl (NotModelled doc)
          else if take 4 s = ''null'' then Inr (PNone, drop 4 s)
          else if take 4 s = ''true'' then Inr (PBool True, drop 4 s)
          else if take 5 s = ''false'' then Inr (PBool False, drop 5 s)
          else
            (case match_number s of
               IntMatch i rest \<Rightarrow> Inr (PInt i, rest)
             | FloatMatch \<Rightarrow> Inl (NotModelled doc)
             | NoMatch \<Rightarrow>
                 if take 3 s = ''NaN'' \<or> take 8 s = ''Infinity'' \<or> take 9 s = ''-Infinity''
                 then Inl (NotModelled doc)
                 else Inl (decode_error doc ''Expecting value'' s)))"

lemma match_int_part_length_le:
  "match_int_part s = Some (ds, rest) \<Longrightarrow> length rest \<le> length s"
  using dropWhile_length_le [of is_digit s]
  by (auto simp: match_int_part_def split: list.splits if_splits)

lemma match_number_length_le:
  assumes "match_number s = IntMatch i rest"
  shows "length rest \<le> length s"
proof -
  define body where "body = (if (case s of c # _ \<Rightarrow> c = CHR ''-'' | [] \<Rightarrow> False) then tl s else s)"
  from assms obtain ds where "match_int_part body = Some (ds, rest)"
    by (auto simp: match_number_def Let_def body_def split: option.splits if_splits)
  then have "length rest \<le> length body"
    by (rule match_int_part_length_le)
  moreover have "length body \<le> length s"
    by (simp add: body_def)
  ultimately show ?thesis by simp
qed

lemma scan_scalar_length_le:
  assumes "scan_scalar doc s = Inr (v, rest)"
  shows "length rest \<le> length s"
proof (cases s)
  case Nil
  with assms show ?thesis by (simp add: scan_scalar_def)
next
  case (Cons c cs)
  show ?thesis
  proof (cases "c = dquote")
    case True
    with assms Cons obtain str where "scanstring doc s cs = Inr (str, rest)"
      by (auto simp: scan_scalar_def split: sum.splits)
    then have "length rest < length cs" by (rule scanstring_shorter)
    with Cons show ?thesis by simp
  next
    case False
    note nq = this
    show ?thesis
    proof (cases "match_number s")
      case NoMatch
      with assms Cons nq have "rest = drop 4 s \<or> rest = drop 5 s"
        by (simp add: scan_scalar_def split: if_splits)
      then show ?thesis by auto
    next
      case (IntMatch i r)
      with assms Cons nq have "rest = drop 4 s \<or> rest = drop 5 s \<or> rest = r"
        by (simp add: scan_scalar_def split: if_splits)
      with match_number_length_le [OF IntMatch] show ?thesis by auto
    next
      case FloatMatch
      with assms Cons nq have "rest = drop 4 s \<or> rest = drop 5 s"
        by (simp add: scan_scalar_def split: if_splits)
      then show ?thesis by auto
    qed
  qed
qed

text \<open>
  The member loop of Python's \<open>JSONObject\<close>, entered just after the opening quote of a
  property name; \<open>pairs\<close> are the members read so far.
\<close>

function JSONObject_loop ::
  "string \<Rightarrow> string \<Rightarrow> (string \<times> pyvalue) list \<Rightarrow> error + ((string \<times> pyvalue) list \<times> string)" where
  "JSONObject_loop doc s pairs =
     (case scanstring doc (dquote # s) s of
        Inl e \<Rightarrow> Inl e
      | Inr (key, s1) \<Rightarrow>
          (case skip_ws s1 of
             [] \<Rightarrow> Inl (decode_error doc ''Expecting ':' delimiter'' [])
           | c # s2 \<Rightarrow>
               if c \<noteq> CHR '':'' then Inl (decode_error doc ''Expecting ':' delimiter'' (c # s2))
               else
                 (case scan_scalar doc (skip_ws s2) of
                    Inl e \<Rightarrow> Inl e
                  | Inr (v, s3) \<Rightarrow>
                      (case skip_ws s3 of
                         [] \<Rightarrow> Inl (decode_error doc ''Expecting ',' delimiter'' [])
                       | d # s4 \<Rightarrow>
                           if d = CHR ''}'' then Inr (pairs @ [(key, v)], s4)
                           else if d \<noteq> CHR '','' then
                             Inl (decode_error doc ''Expecting ',' delimiter'' (d # s4))
                           else
                             (case skip_ws s4 of
                                [] \<Rightarrow>
                                  Inl (decode_error doc
                                    ''Expecting property name enclosed in double quotes'' [])
                              | q # s5 \<Rightarrow>
                                  if q \<noteq> dquote then
                                    Inl (decode_error doc
                                      ''Expecting property name enclosed in double quotes'' (q # s5))
                                  else JSONObject_loop doc s5 (pairs @ [(key, v)]))))))"
  by pat_completeness auto
termination
proof (relation "measure (\<lambda>(doc, s, pairs). length s)", goal_cases)
  case 1
  then show ?case by simp
next
  case (2 doc s pairs x key s1 c s2 y v s3 d s4 q s5)
  have a: "length s1 < length s"
    using 2 by (auto dest: scanstring_shorter)
  have b: "length s2 < length s1"
    using skip_ws_length_le [of s1] 2 by simp
  have c: "length s3 \<le> length s2"
    using scan_scalar_length_le [of doc "skip_ws s2" v s3] skip_ws_length_le [of s2] 2 by simp
  have d: "length s4 < length s3"
    using skip_ws_length_le [of s3] 2 by simp
  have e: "length s5 < length s4"
    using skip_ws_length_le [of s4] 2 by simp
  from a b c d e show ?case by simp
qed

text \<open>\<open>dict(pairs)\<close>: a later member with the same name replaces the value of the earlier one.\<close>

definition dict_of_pairs :: "(string \<times> pyvalue) list \<Rightarrow> pydict" where
  "dict_of_pairs pairs = foldl (\<lambda>d (k, v). AList.update k v d) [] pairs"

text \<open>Python's \<open>JSONObject\<close>, entered just after the opening brace.\<close>

definition JSONObject :: "string \<Rightarrow> string \<Rightarrow> error + (pydict \<times> string)" where
  "JSONObject doc s =
     (case skip_ws s of
        [] \<Rightarrow> Inl (decode_error doc ''Expecting property name enclosed in double quotes'' [])
      | c # cs \<Rightarrow>
          if c = CHR ''}'' then Inr ([], cs)
          else if c \<noteq> dquote then
            Inl (decode_error doc ''Expecting property name enclosed in double quotes'' (c # cs))
          else
            (case JSONObject_loop doc cs [] of
               Inl e \<Rightarrow> Inl e
             | Inr (pairs, rest) \<Rightarrow> Inr (dict_of_pairs pairs, rest)))"

text \<open>
  \<open>json.loads(doc)\<close>: leading whitespace, one value, trailing whitespace, and nothing
  else.
\<close>

definition raw_decode :: "string \<Rightarrow> string \<Rightarrow> error + (json_value \<times> string)" where
  "raw_decode doc s =
     (case s of
        c # cs \<Rightarrow>
          if c = CHR ''{'' then
            (case JSONObject doc cs of
               Inl e \<Rightarrow> Inl e
             | Inr (d, rest) \<Rightarrow> Inr (JObject d, rest))
          else
            (case scan_scalar doc s of
               Inl e \<Rightarrow> Inl e
             | Inr (v, rest) \<Rightarrow> Inr (JScalar v, rest))
      | [] \<Rightarrow> Inl (decode_error doc ''Expecting value'' s))"

definition json_loads :: "string \<Rightarrow> error + json_value" where
  "json_loads doc =
     (if take 3 doc = [CHR 0xEF, CHR 0xBB, CHR 0xBF]
      then Inl (JSONDecodeError ''Unexpected UTF-8 BOM (decode using utf-8-sig)'' doc 0)
      else
        (case raw_decode doc (skip_ws doc) of
           Inl e \<Rightarrow> Inl e
         | Inr (v, rest) \<Rightarrow>
             if skip_ws rest = [] then Inr v
             else Inl (decode_error doc ''Extra data'' (skip_ws rest))))"

section \<open>Files\<close>

text \<open>
  A file system maps the paths that exist to their text; \<open>writable\<close> tells whether
  \<open>open(path, 'w')\<close> succeeds. Encoding to and from UTF-8 is the identity on code units.
\<close>

record filesystem =
  files :: "path \<rightharpoonup> string"
  writable :: "path \<Rightarrow> bool"

text \<open>\<open>open(path, 'w')\<close> creates the file or truncates it.\<close>

definition open_w :: "filesystem \<Rightarrow> path \<Rightarrow> error + filesystem" where
  "open_w fs file_path =
     (if writable fs file_path then Inr (fs\<lparr>files := (files fs)(file_path \<mapsto> [])\<rparr>)
      else Inl (PermissionError file_path))"

text \<open>\<open>f.write(text)\<close> appends to the open file.\<close>

definition file_write :: "path \<Rightarrow> filesystem \<Rightarrow> string \<Rightarrow> filesystem" where
  "file_write file_path fs text =
     fs\<lparr>files := (files fs)(file_path \<mapsto> (case files fs file_path of None \<Rightarrow> text | Some old \<Rightarrow> old @ text))\<rparr>"

text \<open>
  \<open>for line in f\<close> on a file opened for reading in text mode: a line ends after a line
  feed, a carriage return or the pair of both, each read as one line feed; the last line
  may lack it.
\<close>

fun iter_lines :: "string \<Rightarrow> string list" where
  "iter_lines [] = []"
| "iter_lines [c] = (if c = newline \<or> c = carriage_return then [[newline]] else [[c]])"
| "iter_lines (c # d # ds) =
     (if c = newline then [newline] # iter_lines (d # ds)
      else if c = carriage_return then
        (if d = newline then [newline] # iter_lines ds else [newline] # iter_lines (d # ds))
      else (case iter_lines (d # ds) of
              [] \<Rightarrow> [[c]]
            | l # ls \<Rightarrow> (c # l) # ls))"

section \<open>The trainset store\<close>

text \<open>
  \<open>dspy.Example(**data)\<close>. The constructor is \<open>__init__(self, base=None, **kwargs)\<close>:
  unpacking something that is not a mapping is a \<open>TypeError\<close>, so is a key \<open>self\<close>;
  a key \<open>base\<close> binds the parameter \<open>base\<close>, which is used only when it is an Example
  or a dict, and the remaining keys are stored.
\<close>

definition Example_kwargs :: "json_value \<Rightarrow> error + example" where
  "Example_kwargs data =
     (case data of
        JScalar v \<Rightarrow> Inl (TypeError ''argument after ** must be a mapping'')
      | JObject d \<Rightarrow>
          if ''self'' \<in> set (map fst d) then Inl (TypeError ''got multiple values for argument self'')
          else Inr \<lparr>store = filter (\<lambda>kv. fst kv \<noteq> ''base'') d, input_keys = None\<rparr>)"

text \<open>\<open>save_trainset(trainset, file_path)\<close>, \<open>utils/data_utils.py\<close> lines 29 to 34.\<close>

definition save_trainset :: "example list \<Rightarrow> path \<Rightarrow> filesystem \<Rightarrow> error + filesystem" where
  "save_trainset trainset file_path fs =
     (case open_w fs file_path of
        Inl e \<Rightarrow> Inl e
      | Inr f \<Rightarrow>
          Inr (foldl (\<lambda>f ex. file_write file_path f (json_dumps (toDict ex) @ [newline])) f trainset))"

text \<open>The body of the loop of \<open>load_trainset\<close> (lines 41 to 44): one line to one example.\<close>

definition load_line :: "string list \<Rightarrow> string \<Rightarrow> error + example" where
  "load_line keys line =
     (case json_loads line of
        Inl e \<Rightarrow> Inl e
      | Inr data \<Rightarrow>
          (case Example_kwargs data of
             Inl e \<Rightarrow> Inl e
           | Inr example \<Rightarrow> Inr (with_inputs keys example)))"

fun load_lines :: "string list \<Rightarrow> string list \<Rightarrow> example list \<Rightarrow> error + example list" where
  "load_lines keys [] loaded_data = Inr loaded_data"
| "load_lines keys (line # rest) loaded_data =
     (case load_line keys line of
        Inl e \<Rightarrow> Inl e
      | Inr example \<Rightarrow> load_lines keys rest (loaded_data @ [example]))"

text \<open>\<open>load_trainset(file_path, input_keys)\<close>, \<open>utils/data_utils.py\<close> lines 37 to 46.\<close>

definition load_trainset :: "filesystem \<Rightarrow> path \<Rightarrow> string list \<Rightarrow> error + example list" where
  "load_trainset fs file_path keys =
     (case files fs file_path of
        None \<Rightarrow> Inl (FileNotFoundError file_path)
      | Some content \<Rightarrow> load_lines keys (iter_lines content) [])"

text \<open>The default of the parameter \<open>input_keys\<close>.\<close>

definition default_input_keys :: "string list" where
  "default_input_keys = [''question'', ''context'']"

section \<open>The judge metrics\<close>

text \<open>
  The program state a metric call can reach: its two arguments and standard output.
  The judge is a remote model call; it is a parameter of the model, receives the values
  passed to it and returns an assessment or fails.
\<close>

datatype printed = Shown pyvalue | ShownFloat real

record metric_state =
  arg_example :: example
  arg_pred :: example
  stdout :: "(string \<times> printed) list"

record prediction =
  score :: real
  feedback :: string

text \<open>
  The output fields of \<open>AssessQuality\<close> (search assistant), typed as the signature
  declares them. A field is \<open>None\<close> when the judge's response lacks it.
\<close>

record quality_assessment =
  is_grounded :: "bool option"
  language_match :: "bool option"
  citation_correct :: "bool option"
  rationale :: "string option"

text \<open>The output fields of \<open>AssessTemplateQuality\<close> (audio assistant).\<close>

record template_assessment =
  general_score :: "real option"
  tone_score :: "real option"
  scenario_alignment_score :: "real option"
  audience_match_score :: "real option"
  language_consistency_score :: "real option"
  language_appropriateness_score :: "real option"
  template_rationale :: "string option"

text \<open>Python's \<open>float(b)\<close> on a boolean.\<close>

definition py_float :: "bool \<Rightarrow> real" where
  "py_float b = (if b then 1 else 0)"

text \<open>Reading an attribute of the assessment: \<open>AttributeError\<close> when it is missing.\<close>

definition attr :: "string \<Rightarrow> 'a option \<Rightarrow> error + 'a" where
  "attr name field = (case field of None \<Rightarrow> Inl (AttributeError name) | Some v \<Rightarrow> Inr v)"

text \<open>Sequencing of calls that may raise: the first exception ends the computation.\<close>

definition bind_result :: "error + 'a \<Rightarrow> ('a \<Rightarrow> error + 'b) \<Rightarrow> error + 'b" where
  "bind_result m f = (case m of Inl e \<Rightarrow> Inl e | Inr x \<Rightarrow> f x)"

text \<open>\<open>search_assistant.llm_judge_metric(example, pred)\<close>, lines 107 to 129.\<close>

definition search_llm_judge_metric ::
  "(pyvalue \<Rightarrow> pyvalue \<Rightarrow> pyvalue \<Rightarrow> error + quality_assessment) \<Rightarrow>
   metric_state \<Rightarrow> (error + prediction) \<times> metric_state" where
  "search_llm_judge_metric judge s =
     (bind_result (getattr (arg_example s) ''context'') (\<lambda>context.
      bind_result (getattr (arg_example s) ''question'') (\<lambda>question.
      bind_result (getattr (arg_pred s) ''answer'') (\<lambda>answer.
      bind_result (judge context question answer) (\<lambda>assessment.
      bind_result (attr ''is_grounded'' (is_grounded assessment)) (\<lambda>g.
      bind_result (attr ''language_match'' (language_match assessment)) (\<lambda>l.
      bind_result (attr ''citation_correct'' (citation_correct assessment)) (\<lambda>c.
      let total_score = (py_float g + py_float l + py_float c) / 3 in
      bind_result (attr ''rationale'' (rationale assessment)) (\<lambda>r.
        Inr \<lparr>score = total_score, feedback = r\<rparr>)))))))),
      s)"

text \<open>
  \<open>audio_assistant.llm_judge_metric(example, pred)\<close>, lines 136 to 164: the judge call
  with the diagnostic prints, then the score. When the language-consistency
  score is below 0.5 the three \<open>print\<close> calls append to standard output; a printed line is
  kept as its label and the value printed after it.
\<close>

definition audio_judge_call ::
  "(pyvalue \<Rightarrow> pyvalue \<Rightarrow> error + template_assessment) \<Rightarrow>
   metric_state \<Rightarrow> error + template_assessment \<times> real \<times> pyvalue \<times> pyvalue" where
  "audio_judge_call judge s =
     bind_result (getattr (arg_example s) ''requirements'') (\<lambda>requirements.
     bind_result (getattr (arg_pred s) ''template'') (\<lambda>template.
     bind_result (judge requirements template) (\<lambda>assessment.
     bind_result (attr ''language_consistency_score'' (language_consistency_score assessment)) (\<lambda>lc.
       Inr (assessment, lc, requirements, template)))))"

definition audio_total_score :: "template_assessment \<Rightarrow> error + prediction" where
  "audio_total_score assessment =
     bind_result (attr ''general_score'' (general_score assessment)) (\<lambda>g.
     bind_result (attr ''tone_score'' (tone_score assessment)) (\<lambda>t.
     bind_result (attr ''scenario_alignment_score'' (scenario_alignment_score assessment)) (\<lambda>sa.
     bind_result (attr ''audience_match_score'' (audience_match_score assessment)) (\<lambda>am.
     bind_result (attr ''language_consistency_score'' (language_consistency_score assessment)) (\<lambda>lc.
     bind_result (attr ''language_appropriateness_score'' (language_appropriateness_score assessment)) (\<lambda>la.
     let total_score = (g + t + sa + am + lc + la) / 6 in
     bind_result (attr ''rationale'' (template_rationale assessment)) (\<lambda>r.
       Inr \<lparr>score = total_score, feedback = r\<rparr>)))))))"

definition audio_llm_judge_metric ::
  "(pyvalue \<Rightarrow> pyvalue \<Rightarrow> error + template_assessment) \<Rightarrow>
   metric_state \<Rightarrow> (error + prediction) \<times> metric_state" where
  "audio_llm_judge_metric judge s =
     (case audio_judge_call judge s of
        Inl e \<Rightarrow> (Inl e, s)
      | Inr (assessment, lc, requirements, template) \<Rightarrow>
          (audio_total_score assessment,
           if lc < 0.5
           then s\<lparr>stdout := stdout s @
                  [(''language_consistency_score: '', ShownFloat lc),
                   (''requirements: '', Shown requirements),
                   (''template: '', Shown template)]\<rparr>
           else s))"


section \<open>What a failed load reports\<close>

text \<open>
  When decoding a document fails, the exception is a \<open>JSONDecodeError\<close> that holds the
  document and a position inside it, or the document is outside the values modelled here.
\<close>

abbreviation (input) decode_failure :: "string \<Rightarrow> error \<Rightarrow> bool" where
  "decode_failure doc e \<equiv>
     (\<exists>msg pos. e = JSONDecodeError msg doc pos \<and> pos \<le> length doc) \<or> e = NotModelled doc"

lemma decode_error_failure: "decode_failure doc (decode_error doc msg rest)"
  by (simp add: decode_error_def)










section \<open>Properties of the trainset store\<close>







text \<open>
  C8. Loading a path that does not exist fails with \<open>FileNotFoundError\<close>; no record is
  returned.
\<close>

theorem load_trainset_missing_path:
  "files fs file_path = None \<Longrightarrow> load_trainset fs file_path keys = Inl (FileNotFoundError file_path)"
  by (simp add: load_trainset_def)

theorem load_trainset_missing_path_witness:
  "files \<lparr>files = Map.empty, writable = (\<lambda>p. True)\<rparr> ''data/trainset.jsonl'' = None \<and>
   load_trainset \<lparr>files = Map.empty, writable = (\<lambda>p. True)\<rparr> ''data/trainset.jsonl'' default_input_keys
     = Inl (FileNotFoundError ''data/trainset.jsonl'')"
proof -
  have h: "files \<lparr>files = Map.empty, writable = (\<lambda>p. True)\<rparr> ''data/trainset.jsonl'' = None"
    by simp
  from h load_trainset_missing_path [OF h] show ?thesis by blast
qed

text \<open>
  C7. An existing empty file loads as the empty sequence, and saving the empty sequence
  to a writable path leaves an empty file that loads as the empty sequence.
\<close>

theorem load_trainset_empty:
  "(files fs file_path = Some [] \<longrightarrow> load_trainset fs file_path keys = Inr []) \<and>
   (writable fs file_path \<longrightarrow>
      (\<exists>fs'. save_trainset [] file_path fs = Inr fs' \<and> files fs' file_path = Some [] \<and>
             load_trainset fs' file_path keys = Inr []))"
  by (simp add: load_trainset_def save_trainset_def open_w_def)

theorem load_trainset_empty_witness:
  "files \<lparr>files = [''t.jsonl'' \<mapsto> []], writable = (\<lambda>p. True)\<rparr> ''t.jsonl'' = Some [] \<and>
   load_trainset \<lparr>files = [''t.jsonl'' \<mapsto> []], writable = (\<lambda>p. True)\<rparr> ''t.jsonl'' [''question''] = Inr [] \<and>
   writable \<lparr>files = [''t.jsonl'' \<mapsto> ''{}''], writable = (\<lambda>p. True)\<rparr> ''t.jsonl'' \<and>
   (\<exists>fs'. save_trainset [] ''t.jsonl'' \<lparr>files = [''t.jsonl'' \<mapsto> ''{}''], writable = (\<lambda>p. True)\<rparr> = Inr fs' \<and>
          files fs' ''t.jsonl'' = Some [] \<and> load_trainset fs' ''t.jsonl'' [''question''] = Inr [])"
proof -
  let ?a = "\<lparr>files = [''t.jsonl'' \<mapsto> []], writable = (\<lambda>p. True)\<rparr>"
  let ?b = "\<lparr>files = [''t.jsonl'' \<mapsto> ''{}''], writable = (\<lambda>p. True)\<rparr>"
  have h1: "files ?a ''t.jsonl'' = Some []" by simp
  have h2: "writable ?b ''t.jsonl''" by simp
  from load_trainset_empty [of ?a "''t.jsonl''" "[''question'']"] h1
  have c1: "load_trainset ?a ''t.jsonl'' [''question''] = Inr []" by blast
  from load_trainset_empty [of ?b "''t.jsonl''" "[''question'']"] h2
  have c2: "\<exists>fs'. save_trainset [] ''t.jsonl'' ?b = Inr fs' \<and> files fs' ''t.jsonl'' = Some [] \<and>
          load_trainset fs' ''t.jsonl'' [''question''] = Inr []" by blast
  from h1 c1 h2 c2 show ?thesis by blast
qed








section \<open>Properties of the judge metrics\<close>

lemma bind_result_Inr:
  "bind_result m f = Inr y \<Longrightarrow> \<exists>x. m = Inr x \<and> f x = Inr y"
  by (cases m) (simp_all add: bind_result_def)

lemma bind_result_simps [simp]:
  "bind_result (Inl e) f = Inl e"
  "bind_result (Inr x) f = f x"
  by (simp_all add: bind_result_def)

lemma attr_simps [simp]:
  "attr name None = Inl (AttributeError name)"
  "attr name (Some v) = Inr v"
  by (simp_all add: attr_def)

lemma attr_Inr: "attr name field = Inr v \<Longrightarrow> field = Some v"
  by (cases field) simp_all












text \<open>
  C5. After a metric call the example is what it was before: its fields, their values and
  its input keys. This holds on every path, also when the call fails or prints.
\<close>

theorem llm_judge_metric_leaves_example:
  "arg_example (snd (search_llm_judge_metric judge s)) = arg_example s \<and>
   arg_example (snd (audio_llm_judge_metric judge' s)) = arg_example s"
  by (simp add: search_llm_judge_metric_def audio_llm_judge_metric_def split: sum.splits prod.splits)

section \<open>Encoded text decodes to what was encoded\<close>

text \<open>The encoder writes no line feed and no carriage return.\<close>

lemma hex_digit_not_eol: "hex_digit n \<noteq> newline \<and> hex_digit n \<noteq> carriage_return"
proof -
  define k where "k = n mod 16"
  have "k < 16" by (simp add: k_def)
  then have "k \<in> {0,1,2,3,4,5,6,7,8,9,10,11,12,13,14,15}" by simp arith
  then show ?thesis
    unfolding hex_digit_def k_def [symmetric] by (elim insertE emptyE) simp_all
qed

lemma escape_char_no_eol:
  "newline \<notin> set (escape_char c) \<and> carriage_return \<notin> set (escape_char c)"
  using hex_digit_not_eol [of "of_char c div 16"] hex_digit_not_eol [of "of_char c mod 16"]
  by (auto simp: escape_char_def)

lemma encode_basestring_no_eol:
  "newline \<notin> set (encode_basestring s) \<and> carriage_return \<notin> set (encode_basestring s)"
  using escape_char_no_eol by (auto simp: encode_basestring_def)

lemma of_char_digit_char: "(of_char (digit_char n) :: nat) = 48 + n mod 10"
proof -
  have "48 + n mod 10 < (256 :: nat)"
    using mod_less_divisor [of 10 n] by linarith
  then show ?thesis by (simp add: digit_char_def)
qed

lemma digit_char_not_eol: "digit_char n \<noteq> newline \<and> digit_char n \<noteq> carriage_return"
proof -
  have "(of_char (digit_char n) :: nat) \<noteq> of_char newline"
    and "(of_char (digit_char n) :: nat) \<noteq> of_char carriage_return"
    by (simp_all add: of_char_digit_char)
  then show ?thesis by auto
qed

lemma decimal_no_eol: "newline \<notin> set (decimal n) \<and> carriage_return \<notin> set (decimal n)"
proof (induction n rule: decimal.induct)
  case (1 n)
  show ?case
  proof (cases "n < 10")
    case True
    then show ?thesis
      using digit_char_not_eol [of n] by (subst (1 2) decimal.simps) auto
  next
    case False
    with 1 show ?thesis
      using digit_char_not_eol [of "n mod 10"] by (subst (1 2) decimal.simps) auto
  qed
qed

lemma str_int_no_eol: "newline \<notin> set (str_int i) \<and> carriage_return \<notin> set (str_int i)"
  using decimal_no_eol by (simp add: str_int_def)

lemma dumps_value_no_eol:
  "newline \<notin> set (dumps_value v) \<and> carriage_return \<notin> set (dumps_value v)"
  using str_int_no_eol encode_basestring_no_eol by (cases v) auto

lemma dumps_items_no_eol:
  "newline \<notin> set (dumps_items d) \<and> carriage_return \<notin> set (dumps_items d)"
proof (induction d rule: dumps_items.induct)
  case 1
  then show ?case by simp
next
  case (2 k v)
  then show ?case
    using encode_basestring_no_eol [of k] dumps_value_no_eol [of v] by simp
next
  case (3 k v item items)
  then show ?case
    using encode_basestring_no_eol [of k] dumps_value_no_eol [of v] by simp
qed

lemma json_dumps_no_eol:
  "newline \<notin> set (json_dumps d) \<and> carriage_return \<notin> set (json_dumps d)"
  using dumps_items_no_eol [of d] by (simp add: json_dumps_def)

text \<open>A string literal written by the encoder is read back by \<open>scanstring\<close>.\<close>

lemma hex_val_hex_digit: "k < 16 \<Longrightarrow> hex_val (hex_digit k) = Some k"
proof -
  assume "k < 16"
  then have "k \<in> {0,1,2,3,4,5,6,7,8,9,10,11,12,13,14,15}" by simp arith
  then show ?thesis
    unfolding hex_digit_def by (elim insertE emptyE) (simp_all add: hex_val_def)
qed

lemma scan_escape_control:
  assumes "(of_char c :: nat) < 32" and "cs \<noteq> []"
  shows "scan_escape doc start
           (CHR ''u'' # CHR ''0'' # CHR ''0'' # hex_digit (of_char c div 16) # hex_digit (of_char c mod 16) # cs)
         = Inr ([c], cs)"
proof -
  obtain x xs where cs: "cs = x # xs" using assms(2) by (cases cs) auto
  let ?n = "of_char c :: nat"
  have d: "?n div 16 < 16" using assms by simp
  have m: "?n mod 16 < 16" by simp
  have z: "hex_val CHR ''0'' = Some 0" by (simp add: hex_val_def)
  have "decode_uXXXX (CHR ''0'' # CHR ''0'' # hex_digit (?n div 16) # hex_digit (?n mod 16) # cs)
        = Some (((0 * 16 + 0) * 16 + ?n div 16) * 16 + ?n mod 16)"
    unfolding decode_uXXXX_def cs by (simp add: z hex_val_hex_digit [OF d] hex_val_hex_digit [OF m])
  then have u: "decode_uXXXX (CHR ''0'' # CHR ''0'' # hex_digit (?n div 16) # hex_digit (?n mod 16) # cs)
        = Some ?n" by simp
  have "utf8_encode ?n = [c]" using assms by (simp add: utf8_encode_def)
  with u assms show ?thesis
    by (simp add: scan_escape_def)
qed

lemma scanstring_escape_char:
  assumes ne: "cs \<noteq> []"
  shows "scanstring doc start (escape_char c @ cs) =
     (case scanstring doc start cs of
        Inl e \<Rightarrow> Inl e
      | Inr (str, rest) \<Rightarrow> Inr (c # str, rest))"
proof -
  consider (q) "c = dquote" | (b) "c = backslash" | (bs) "c = CHR 0x08" | (ff) "c = CHR 0x0C"
    | (nl) "c = newline" | (cr) "c = carriage_return" | (tab) "c = CHR 0x09"
    | (ctl) "c \<noteq> dquote" "c \<noteq> backslash" "c \<noteq> CHR 0x08" "c \<noteq> CHR 0x0C" "c \<noteq> newline"
        "c \<noteq> carriage_return" "c \<noteq> CHR 0x09" "(of_char c :: nat) < 32"
    | (plain) "c \<noteq> dquote" "c \<noteq> backslash" "\<not> (of_char c :: nat) < 32"
    by fastforce
  then show ?thesis
  proof cases
    case q
    then show ?thesis
      by (simp add: escape_char_def scan_escape_def backslash_map_def split: sum.splits prod.splits)
  next
    case b
    then show ?thesis
      by (simp add: escape_char_def scan_escape_def backslash_map_def split: sum.splits prod.splits)
  next
    case bs
    then show ?thesis
      by (simp add: escape_char_def scan_escape_def backslash_map_def split: sum.splits prod.splits)
  next
    case ff
    then show ?thesis
      by (simp add: escape_char_def scan_escape_def backslash_map_def split: sum.splits prod.splits)
  next
    case nl
    then show ?thesis
      by (simp add: escape_char_def scan_escape_def backslash_map_def split: sum.splits prod.splits)
  next
    case cr
    then show ?thesis
      by (simp add: escape_char_def scan_escape_def backslash_map_def split: sum.splits prod.splits)
  next
    case tab
    then show ?thesis
      by (simp add: escape_char_def scan_escape_def backslash_map_def split: sum.splits prod.splits)
  next
    case ctl
    then have "escape_char c = [backslash, CHR ''u'', CHR ''0'', CHR ''0'',
        hex_digit (of_char c div 16), hex_digit (of_char c mod 16)]"
      by (simp add: escape_char_def)
    then show ?thesis
      using scan_escape_control [OF ctl(8) ne, of doc start] by (simp split: sum.splits prod.splits)
  next
    case plain
    then have "escape_char c = [c]" by (auto simp: escape_char_def)
    with plain show ?thesis by (simp split: sum.splits prod.splits)
  qed
qed

lemma scanstring_escaped:
  "scanstring doc start (concat (map escape_char s) @ dquote # rest) = Inr (s, rest)"
  by (induction s) (simp_all add: scanstring_escape_char)

lemma scanstring_encode_basestring:
  "scanstring doc start (tl (encode_basestring s) @ rest) = Inr (s, rest)"
  using scanstring_escaped [of doc start s rest] by (simp add: encode_basestring_def)

text \<open>An integer written in decimal is matched as that integer.\<close>

lemma char_of_48: "char_of (48::nat) = CHR ''0''"
proof -
  have "char_of (of_char CHR ''0'' :: nat) = CHR ''0''" by (rule char_of_char)
  then show ?thesis by simp
qed

lemma is_digit_digit_char: "is_digit (digit_char n)"
  using mod_less_divisor [of 10 n] by (simp add: is_digit_def of_char_digit_char del: mod_less_divisor)

lemma digit_val_digit_char: "digit_val (digit_char n) = n mod 10"
  by (simp add: digit_val_def of_char_digit_char)

lemma digit_char_eq_zero: "digit_char n = CHR ''0'' \<longleftrightarrow> n mod 10 = 0"
proof
  assume "digit_char n = CHR ''0''"
  then have "(of_char (digit_char n) :: nat) = of_char CHR ''0''" by simp
  then show "n mod 10 = 0" by (simp add: of_char_digit_char)
next
  assume "n mod 10 = 0"
  then show "digit_char n = CHR ''0''" by (simp add: digit_char_def char_of_48)
qed

lemma digit_char_not_minus: "digit_char n \<noteq> CHR ''-''"
proof
  assume "digit_char n = CHR ''-''"
  then have "(of_char (digit_char n) :: nat) = of_char CHR ''-''" by simp
  then show False by (simp add: of_char_digit_char)
qed

lemma decimal_digits: "\<forall>c\<in>set (decimal n). is_digit c"
proof (induction n rule: decimal.induct)
  case (1 n)
  show ?case
  proof (cases "n < 10")
    case True
    then show ?thesis by (subst decimal.simps) (simp add: is_digit_digit_char)
  next
    case False
    with 1 show ?thesis by (subst decimal.simps) (simp add: is_digit_digit_char)
  qed
qed

lemma decimal_not_Nil: "decimal n \<noteq> []"
  by (subst decimal.simps) simp

lemma nat_of_digits_decimal: "nat_of_digits (decimal n) = n"
proof (induction n rule: decimal.induct)
  case (1 n)
  show ?case
  proof (cases "n < 10")
    case True
    then show ?thesis
      by (subst decimal.simps) (simp add: nat_of_digits_def digit_val_digit_char)
  next
    case False
    with 1 have "nat_of_digits (decimal (n div 10)) = n div 10" by simp
    with False show ?thesis
      by (subst decimal.simps) (simp add: nat_of_digits_def digit_val_digit_char)
  qed
qed

lemma hd_decimal_zero: "hd (decimal n) = CHR ''0'' \<longleftrightarrow> n = 0"
proof (induction n rule: decimal.induct)
  case (1 n)
  show ?case
  proof (cases "n < 10")
    case True
    then show ?thesis by (subst decimal.simps) (simp add: digit_char_eq_zero)
  next
    case False
    with 1 have "hd (decimal (n div 10)) = CHR ''0'' \<longleftrightarrow> n div 10 = 0" by simp
    moreover from False have "n div 10 \<noteq> 0" by simp
    ultimately show ?thesis
      using False decimal_not_Nil [of "n div 10"] by (subst decimal.simps) simp
  qed
qed

lemma decimal_zero: "decimal 0 = ''0''"
  by (subst decimal.simps) (simp add: digit_char_def char_of_48)

lemma match_int_part_decimal:
  assumes "\<not> is_digit c"
  shows "match_int_part (decimal n @ c # r) = Some (decimal n, c # r)"
proof (cases "n = 0")
  case True
  then show ?thesis by (simp add: decimal_zero match_int_part_def)
next
  case False
  obtain d ds where d: "decimal n = d # ds"
    using decimal_not_Nil [of n] by (cases "decimal n") auto
  from False hd_decimal_zero [of n] d have nz: "d \<noteq> CHR ''0''" by simp
  from decimal_digits [of n] d have dig: "is_digit d" by simp
  have tw: "takeWhile is_digit (decimal n @ c # r) = decimal n"
    using decimal_digits [of n] assms by (simp add: takeWhile_append2)
  have dw: "dropWhile is_digit (decimal n @ c # r) = c # r"
    using decimal_digits [of n] assms by (simp add: dropWhile_append2)
  have "match_int_part ((d # ds) @ c # r) =
        Some (takeWhile is_digit ((d # ds) @ c # r), dropWhile is_digit ((d # ds) @ c # r))"
    using nz dig by (simp add: match_int_part_def)
  with d tw dw show ?thesis by simp
qed

lemma match_number_str_int:
  assumes "\<not> is_digit c" and "c \<noteq> CHR ''.''" and "c \<noteq> CHR ''e''" and "c \<noteq> CHR ''E''"
  shows "match_number (str_int i @ c # r) = IntMatch i (c # r)"
proof -
  have nf: "\<not> has_frac (c # r)" using assms by (simp add: has_frac_def split: list.splits)
  have ne: "\<not> has_exp (c # r)" using assms by (simp add: has_exp_def split: list.splits)
  show ?thesis
  proof (cases "i < 0")
    case True
    then have s: "str_int i @ c # r = CHR ''-'' # decimal (nat (- i)) @ c # r"
      by (simp add: str_int_def)
    show ?thesis
      unfolding s match_number_def
      using True nf ne
      by (simp add: match_int_part_decimal [OF assms(1)] nat_of_digits_decimal)
  next
    case False
    obtain d ds where d: "decimal (nat i) = d # ds"
      using decimal_not_Nil [of "nat i"] by (cases "decimal (nat i)") auto
    from decimal_digits [of "nat i"] d have "is_digit d" by simp
    then have dm: "d \<noteq> CHR ''-''" by (auto simp: is_digit_def)
    from False have s: "str_int i @ c # r = decimal (nat i) @ c # r"
      by (simp add: str_int_def)
    have "match_number ((d # ds) @ c # r) = IntMatch i (c # r)"
      unfolding match_number_def
      using dm False nf ne match_int_part_decimal [OF assms(1), of "nat i" r] nat_of_digits_decimal [of "nat i"]
      by (simp add: d)
    with s d show ?thesis by simp
  qed
qed

text \<open>An object written by \<open>json_dumps\<close> is read back by \<open>json_loads\<close>.\<close>

lemma skip_ws_Cons: "skip_ws (c # s) = (if is_ws c then skip_ws s else c # s)"
  by (simp add: skip_ws_def)

lemma skip_ws_Nil: "skip_ws [] = []"
  by (simp add: skip_ws_def)

lemma str_int_head: "\<exists>d ds. str_int i = d # ds \<and> (is_digit d \<or> d = CHR ''-'')"
proof (cases "i < 0")
  case True
  then show ?thesis by (simp add: str_int_def)
next
  case False
  obtain d ds where d: "decimal (nat i) = d # ds"
    using decimal_not_Nil [of "nat i"] by (cases "decimal (nat i)") auto
  from decimal_digits [of "nat i"] d have "is_digit d" by simp
  with d False show ?thesis by (simp add: str_int_def)
qed

lemma encode_basestring_head: "encode_basestring s = dquote # tl (encode_basestring s)"
  by (simp add: encode_basestring_def)

lemma dumps_value_head: "\<exists>d ds. dumps_value v = d # ds \<and> \<not> is_ws d"
proof (cases v)
  case PNone
  then show ?thesis by (simp add: is_ws_def)
next
  case (PBool b)
  then show ?thesis by (simp add: is_ws_def)
next
  case (PInt i)
  from str_int_head [of i] obtain d ds where "str_int i = d # ds" "is_digit d \<or> d = CHR ''-''"
    by blast
  with PInt show ?thesis by (auto simp: is_ws_def is_digit_def)
next
  case (PStr s)
  then show ?thesis by (simp add: encode_basestring_def is_ws_def)
qed

lemma skip_ws_dumps_value: "skip_ws (dumps_value v @ x) = dumps_value v @ x"
proof -
  from dumps_value_head [of v] obtain d ds where "dumps_value v = d # ds" "\<not> is_ws d" by blast
  then show ?thesis by (simp add: skip_ws_Cons)
qed

lemma scan_scalar_dumps_value:
  assumes "c = CHR '','' \<or> c = CHR ''}''"
  shows "scan_scalar doc (dumps_value v @ c # r) = Inr (v, c # r)"
proof (cases v)
  case PNone
  then show ?thesis by (simp add: scan_scalar_def)
next
  case (PBool b)
  then show ?thesis by (simp add: scan_scalar_def)
next
  case (PInt i)
  from str_int_head [of i] obtain d ds where d: "str_int i = d # ds" "is_digit d \<or> d = CHR ''-''"
    by blast
  then have h: "d \<noteq> dquote" "d \<noteq> CHR ''{''" "d \<noteq> CHR ''[''" "d \<noteq> CHR ''n''" "d \<noteq> CHR ''t''"
    "d \<noteq> CHR ''f''"
    by (auto simp: is_digit_def)
  have c: "\<not> is_digit c" "c \<noteq> CHR ''.''" "c \<noteq> CHR ''e''" "c \<noteq> CHR ''E''"
    using assms by (auto simp: is_digit_def)
  have m: "match_number ((d # ds) @ c # r) = IntMatch i (c # r)"
    using match_number_str_int [OF c, of i r] d by simp
  have "scan_scalar doc ((d # ds) @ c # r) = Inr (PInt i, c # r)"
    unfolding scan_scalar_def using h m by simp
  with PInt d show ?thesis by simp
next
  case (PStr s)
  let ?body = "concat (map escape_char s) @ dquote # c # r"
  have "scanstring doc (dquote # ?body) ?body = Inr (s, c # r)"
    by (rule scanstring_escaped)
  then have "scan_scalar doc (dquote # ?body) = Inr (PStr s, c # r)"
    by (simp add: scan_scalar_def)
  with PStr show ?thesis by (simp add: encode_basestring_def)
qed

lemma dumps_items_head:
  "items \<noteq> [] \<Longrightarrow> dumps_items items = dquote # tl (dumps_items items)"
  by (induction items rule: dumps_items.induct) (simp_all add: encode_basestring_def)

lemma JSONObject_loop_member_last:
  "JSONObject_loop doc (tl (encode_basestring k) @ '': '' @ dumps_value v @ CHR ''}'' # rest) pairs
     = Inr (pairs @ [(k, v)], rest)"
proof -
  let ?s = "tl (encode_basestring k) @ '': '' @ dumps_value v @ CHR ''}'' # rest"
  have a: "scanstring doc (dquote # ?s) ?s = Inr (k, '': '' @ dumps_value v @ CHR ''}'' # rest)"
    by (rule scanstring_encode_basestring)
  have b: "skip_ws ('': '' @ dumps_value v @ CHR ''}'' # rest)
           = CHR '':'' # CHR '' '' # dumps_value v @ CHR ''}'' # rest"
    by (simp add: skip_ws_Cons is_ws_def)
  have c: "skip_ws (CHR '' '' # dumps_value v @ CHR ''}'' # rest) = dumps_value v @ CHR ''}'' # rest"
    by (simp add: skip_ws_Cons is_ws_def skip_ws_dumps_value)
  have d: "scan_scalar doc (dumps_value v @ CHR ''}'' # rest) = Inr (v, CHR ''}'' # rest)"
    by (rule scan_scalar_dumps_value) simp
  have e: "skip_ws (CHR ''}'' # rest) = CHR ''}'' # rest"
    by (simp add: skip_ws_Cons is_ws_def)
  show ?thesis
    using a b c d e by (subst JSONObject_loop.simps) simp
qed

lemma JSONObject_loop_member_next:
  "JSONObject_loop doc
     (tl (encode_basestring k) @ '': '' @ dumps_value v @ '', '' @ dquote # rest) pairs
     = JSONObject_loop doc rest (pairs @ [(k, v)])"
proof -
  let ?r = "'', '' @ dquote # rest"
  let ?s = "tl (encode_basestring k) @ '': '' @ dumps_value v @ ?r"
  have a: "scanstring doc (dquote # ?s) ?s = Inr (k, '': '' @ dumps_value v @ ?r)"
    by (rule scanstring_encode_basestring)
  have b: "skip_ws ('': '' @ dumps_value v @ ?r) = CHR '':'' # CHR '' '' # dumps_value v @ ?r"
    by (simp add: skip_ws_Cons is_ws_def)
  have c: "skip_ws (CHR '' '' # dumps_value v @ ?r) = dumps_value v @ ?r"
    by (simp add: skip_ws_Cons is_ws_def skip_ws_dumps_value)
  have d: "scan_scalar doc (dumps_value v @ CHR '','' # CHR '' '' # dquote # rest)
           = Inr (v, CHR '','' # CHR '' '' # dquote # rest)"
    by (rule scan_scalar_dumps_value) simp
  have e: "skip_ws (CHR '','' # CHR '' '' # dquote # rest) = CHR '','' # CHR '' '' # dquote # rest"
    by (simp add: skip_ws_Cons is_ws_def)
  have f: "skip_ws (CHR '' '' # dquote # rest) = dquote # rest"
    by (simp add: skip_ws_Cons is_ws_def)
  show ?thesis
    using a b c d e f by (subst JSONObject_loop.simps) simp
qed

lemma JSONObject_loop_dumps_items:
  "items \<noteq> [] \<Longrightarrow>
   JSONObject_loop doc (tl (dumps_items items) @ CHR ''}'' # rest) pairs = Inr (pairs @ items, rest)"
proof (induction items arbitrary: pairs rule: dumps_items.induct)
  case 1
  then show ?case by simp
next
  case (2 k v)
  have "tl (dumps_items [(k, v)]) @ CHR ''}'' # rest
        = tl (encode_basestring k) @ '': '' @ dumps_value v @ CHR ''}'' # rest"
    by (simp add: encode_basestring_def)
  then show ?case by (simp only: JSONObject_loop_member_last) 
next
  case (3 k v item items)
  have h: "dumps_items (item # items) = dquote # tl (dumps_items (item # items))"
    by (rule dumps_items_head) simp
  have "tl (dumps_items ((k, v) # item # items)) @ CHR ''}'' # rest
        = tl (encode_basestring k) @ '': '' @ dumps_value v @ '', '' @ dumps_items (item # items) @ CHR ''}'' # rest"
    by (simp add: encode_basestring_def)
  also have "\<dots> = tl (encode_basestring k) @ '': '' @ dumps_value v @ '', '' @
                    dquote # (tl (dumps_items (item # items)) @ CHR ''}'' # rest)"
    by (subst h) simp
  finally have "JSONObject_loop doc (tl (dumps_items ((k, v) # item # items)) @ CHR ''}'' # rest) pairs
        = JSONObject_loop doc (tl (dumps_items (item # items)) @ CHR ''}'' # rest) (pairs @ [(k, v)])"
    by (simp only: JSONObject_loop_member_next)
  also have "\<dots> = Inr ((pairs @ [(k, v)]) @ item # items, rest)"
    by (rule "3.IH") simp
  finally show ?case by simp
qed

lemma update_fresh: "k \<notin> fst ` set d \<Longrightarrow> AList.update k v d = d @ [(k, v)]"
  by (induction d) auto

lemma foldl_update_distinct:
  "distinct (map fst (acc @ items)) \<Longrightarrow>
   foldl (\<lambda>d (k, v). AList.update k v d) acc items = acc @ items"
proof (induction items arbitrary: acc)
  case Nil
  then show ?case by simp
next
  case (Cons kv items)
  obtain k v where kv: "kv = (k, v)" by (cases kv)
  from Cons.prems kv have "k \<notin> fst ` set acc" by auto
  then have u: "AList.update k v acc = acc @ [(k, v)]" by (rule update_fresh)
  from Cons.prems kv have "distinct (map fst ((acc @ [(k, v)]) @ items))" by simp
  from Cons.IH [OF this] u kv show ?case by simp
qed

lemma dict_of_pairs_distinct: "distinct (map fst d) \<Longrightarrow> dict_of_pairs d = d"
  using foldl_update_distinct [of "[]" d] by (simp add: dict_of_pairs_def)

lemma JSONObject_json_dumps:
  assumes "distinct (map fst d)"
  shows "JSONObject doc (tl (json_dumps d) @ rest) = Inr (d, rest)"
proof (cases "d = []")
  case True
  then show ?thesis
    by (simp add: json_dumps_def JSONObject_def skip_ws_Cons is_ws_def)
next
  case False
  then have h: "dumps_items d = dquote # tl (dumps_items d)" by (rule dumps_items_head)
  have "tl (json_dumps d) @ rest = dumps_items d @ CHR ''}'' # rest"
    by (simp add: json_dumps_def)
  also have "\<dots> = dquote # (tl (dumps_items d) @ CHR ''}'' # rest)"
    by (subst h) simp
  finally have e: "tl (json_dumps d) @ rest = dquote # (tl (dumps_items d) @ CHR ''}'' # rest)" .
  have l: "JSONObject_loop doc (tl (dumps_items d) @ CHR ''}'' # rest) [] = Inr ([] @ d, rest)"
    using False by (rule JSONObject_loop_dumps_items)
  show ?thesis
    unfolding e JSONObject_def
    using l dict_of_pairs_distinct [OF assms] by (simp add: skip_ws_Cons is_ws_def)
qed

lemma json_loads_json_dumps:
  assumes "distinct (map fst d)"
  shows "json_loads (json_dumps d @ [newline]) = Inr (JObject d)"
proof -
  let ?doc = "json_dumps d @ [newline]"
  have e: "?doc = CHR ''{'' # (tl (json_dumps d) @ [newline])"
    by (simp add: json_dumps_def)
  have s: "skip_ws ?doc = CHR ''{'' # (tl (json_dumps d) @ [newline])"
    by (subst e) (simp add: skip_ws_Cons is_ws_def)
  have o: "JSONObject ?doc (tl (json_dumps d) @ [newline]) = Inr (d, [newline])"
    using assms by (rule JSONObject_json_dumps)
  have r: "raw_decode ?doc (CHR ''{'' # (tl (json_dumps d) @ [newline])) = Inr (JObject d, [newline])"
    using o by (simp add: raw_decode_def)
  have w: "skip_ws [newline] = []" by (simp add: skip_ws_Cons skip_ws_Nil is_ws_def)
  have b: "take 3 ?doc \<noteq> [CHR 0xEF, CHR 0xBB, CHR 0xBF]"
    by (subst e) simp
  show ?thesis
    unfolding json_loads_def s r using w b by simp
qed

section \<open>Saving and then loading\<close>

lemma iter_lines_line:
  "newline \<notin> set l \<Longrightarrow> carriage_return \<notin> set l \<Longrightarrow>
   iter_lines (l @ newline # rest) = (l @ [newline]) # iter_lines rest"
proof (induction l)
  case Nil
  then show ?case by (cases rest) simp_all
next
  case (Cons c l)
  then have ih: "iter_lines (l @ newline # rest) = (l @ [newline]) # iter_lines rest"
    and c: "c \<noteq> newline" "c \<noteq> carriage_return" by auto
  obtain d ds where e: "l @ newline # rest = d # ds" by (cases "l @ newline # rest") auto
  have "iter_lines (c # d # ds) = (c # l @ [newline]) # iter_lines rest"
    using c ih e by simp
  with e show ?case by simp
qed

lemma iter_lines_concat:
  "\<forall>l\<in>set ls. newline \<notin> set l \<and> carriage_return \<notin> set l \<Longrightarrow>
   iter_lines (concat (map (\<lambda>l. l @ [newline]) ls)) = map (\<lambda>l. l @ [newline]) ls"
  by (induction ls) (simp_all add: iter_lines_line)

lemma foldl_file_write:
  "files (foldl (\<lambda>f x. file_write p f (g x)) fs xs) =
   (files fs)(p \<mapsto> (case files fs p of None \<Rightarrow> [] | Some old \<Rightarrow> old) @ concat (map g xs))"
  if "xs \<noteq> [] \<or> files fs p \<noteq> None"
  using that
proof (induction xs arbitrary: fs)
  case Nil
  then show ?case by (auto simp: fun_eq_iff)
next
  case (Cons x xs)
  have "files (file_write p fs (g x)) p \<noteq> None" by (simp add: file_write_def)
  then have "xs \<noteq> [] \<or> files (file_write p fs (g x)) p \<noteq> None" by simp
  from Cons.IH [OF this] show ?case
    by (auto simp: file_write_def fun_eq_iff split: option.splits)
qed

lemma foldl_file_write_writable:
  "writable (foldl (\<lambda>f x. file_write p f (g x)) fs xs) = writable fs"
  by (induction xs arbitrary: fs) (simp_all add: file_write_def)

lemma save_trainset_files:
  assumes "writable fs p"
  shows "\<exists>fs'. save_trainset trainset p fs = Inr fs' \<and>
           files fs' = (files fs)(p \<mapsto> concat (map (\<lambda>ex. json_dumps (toDict ex) @ [newline]) trainset)) \<and>
           writable fs' = writable fs"
proof -
  let ?f0 = "fs\<lparr>files := (files fs)(p \<mapsto> [])\<rparr>"
  let ?g = "\<lambda>ex. json_dumps (toDict ex) @ [newline]"
  have s: "save_trainset trainset p fs = Inr (foldl (\<lambda>f ex. file_write p f (?g ex)) ?f0 trainset)"
    using assms by (simp add: save_trainset_def open_w_def)
  have "trainset \<noteq> [] \<or> files ?f0 p \<noteq> None" by simp
  from foldl_file_write [of trainset ?f0 p ?g, OF this]
  have "files (foldl (\<lambda>f ex. file_write p f (?g ex)) ?f0 trainset) =
        (files fs)(p \<mapsto> concat (map ?g trainset))" by simp
  moreover have "writable (foldl (\<lambda>f ex. file_write p f (?g ex)) ?f0 trainset) = writable fs"
    by (simp add: foldl_file_write_writable)
  ultimately show ?thesis using s by simp
qed

text \<open>
  Records whose field names are unique and are neither \<open>self\<close> nor \<open>base\<close> come
  back from the file with their fields, in order, under the input keys of the load call.
\<close>

lemma load_line_saved:
  assumes "distinct (map fst (store ex))"
    and "''self'' \<notin> fst ` set (store ex)" and "''base'' \<notin> fst ` set (store ex)"
  shows "load_line keys (json_dumps (toDict ex) @ [newline]) = Inr (with_inputs keys ex)"
proof -
  have j: "json_loads (json_dumps (toDict ex) @ [newline]) = Inr (JObject (store ex))"
    using json_loads_json_dumps [OF assms(1)] by (simp add: toDict_def)
  have "filter (\<lambda>kv. fst kv \<noteq> ''base'') (store ex) = store ex"
    using assms(3) by (force simp: filter_id_conv)
  then have "Example_kwargs (JObject (store ex)) = Inr \<lparr>store = store ex, input_keys = None\<rparr>"
    using assms(2) by (simp add: Example_kwargs_def)
  with j show ?thesis
    by (simp add: load_line_def with_inputs_def)
qed

lemma load_lines_saved:
  assumes "\<forall>ex\<in>set trainset. distinct (map fst (store ex)) \<and>
             ''self'' \<notin> fst ` set (store ex) \<and> ''base'' \<notin> fst ` set (store ex)"
  shows "load_lines keys (map (\<lambda>ex. json_dumps (toDict ex) @ [newline]) trainset) acc
         = Inr (acc @ map (with_inputs keys) trainset)"
  using assms
proof (induction trainset arbitrary: acc)
  case Nil
  then show ?case by simp
next
  case (Cons ex trainset)
  then have "load_line keys (json_dumps (toDict ex) @ [newline]) = Inr (with_inputs keys ex)"
    by (simp add: load_line_saved)
  moreover from Cons have "load_lines keys (map (\<lambda>ex. json_dumps (toDict ex) @ [newline]) trainset)
      (acc @ [with_inputs keys ex]) = Inr ((acc @ [with_inputs keys ex]) @ map (with_inputs keys) trainset)"
    by simp
  ultimately show ?case by simp
qed

lemma iter_lines_saved:
  "iter_lines (concat (map (\<lambda>ex. json_dumps (toDict ex) @ [newline]) trainset))
   = map (\<lambda>ex. json_dumps (toDict ex) @ [newline]) trainset"
proof -
  have "\<forall>l\<in>set (map (\<lambda>ex. json_dumps (toDict ex)) trainset).
          newline \<notin> set l \<and> carriage_return \<notin> set l"
    using json_dumps_no_eol by auto
  from iter_lines_concat [OF this] show ?thesis by (simp add: comp_def)
qed

lemma save_then_load:
  assumes "writable fs file_path"
    and "\<forall>ex\<in>set trainset. distinct (map fst (store ex)) \<and>
             ''self'' \<notin> fst ` set (store ex) \<and> ''base'' \<notin> fst ` set (store ex)"
  shows "\<exists>fs'. save_trainset trainset file_path fs = Inr fs' \<and>
               load_trainset fs' file_path keys = Inr (map (with_inputs keys) trainset)"
proof -
  from save_trainset_files [OF assms(1), of trainset] obtain fs' where
    s: "save_trainset trainset file_path fs = Inr fs'"
    and f: "files fs' = (files fs)(file_path \<mapsto>
              concat (map (\<lambda>ex. json_dumps (toDict ex) @ [newline]) trainset))"
    by blast
  have "load_trainset fs' file_path keys = Inr (map (with_inputs keys) trainset)"
    using load_lines_saved [OF assms(2), of keys "[]"]
    by (simp add: load_trainset_def f iter_lines_saved)
  with s show ?thesis by blast
qed



text \<open>
  C1 does not hold for a record with a field named \<open>base\<close> or \<open>self\<close>.
  \<open>load_trainset\<close> rebuilds a record with \<open>dspy.Example(**data)\<close>, and the constructor
  is \<open>__init__(self, base=None, **kwargs)\<close>: the key \<open>base\<close> is taken as the
  parameter and its string value is dropped, so the record comes back without that field;
  the key \<open>self\<close> makes the call raise \<open>TypeError\<close>.
\<close>

theorem save_then_load_drops_base_field:
  "bind_result
     (save_trainset [\<lparr>store = [(''base'', PStr ''x''), (''answer'', PStr ''a'')], input_keys = None\<rparr>]
        ''t.jsonl'' \<lparr>files = Map.empty, writable = (\<lambda>p. True)\<rparr>)
     (\<lambda>fs. load_trainset fs ''t.jsonl'' [''base''])
   = Inr [\<lparr>store = [(''answer'', PStr ''a'')], input_keys = Some {''base''}\<rparr>] \<and>
   bind_result
     (save_trainset [\<lparr>store = [(''self'', PStr ''x'')], input_keys = None\<rparr>]
        ''t.jsonl'' \<lparr>files = Map.empty, writable = (\<lambda>p. True)\<rparr>)
     (\<lambda>fs. load_trainset fs ''t.jsonl'' [''self''])
   = Inl (TypeError ''got multiple values for argument self'')"
  by code_simp

end
